theory Spec2Isabelle
  imports Main "HOL-Library.Sublist"
begin

section \<open>Strings\<close>

text \<open>
  Source strings are modelled as \<^typ>\<open>string\<close>, one \<^typ>\<open>char\<close> per code unit, for ASCII
  text: case conversion touches the letters \<open>a\<close>..\<open>z\<close> and \<open>A\<close>..\<open>Z\<close> only and the
  white space of the regular expression class \<open>\s\<close> is tab, line feed, vertical tab, form feed,
  carriage return and space.
\<close>

definition toUpperChar :: "char \<Rightarrow> char" where
  "toUpperChar c =
     (let n = (of_char c :: nat) in if 97 \<le> n \<and> n \<le> 122 then char_of (n - 32) else c)"

definition toLowerChar :: "char \<Rightarrow> char" where
  "toLowerChar c =
     (let n = (of_char c :: nat) in if 65 \<le> n \<and> n \<le> 90 then char_of (n + 32) else c)"

definition toUpperCase :: "string \<Rightarrow> string" where
  "toUpperCase s = map toUpperChar s"

definition toLowerCase :: "string \<Rightarrow> string" where
  "toLowerCase s = map toLowerChar s"

text \<open>The ASCII letters.\<close>

definition isLetter :: "char \<Rightarrow> bool" where
  "isLetter c \<longleftrightarrow>
     (65 \<le> (of_char c :: nat) \<and> (of_char c :: nat) \<le> 90) \<or>
     (97 \<le> (of_char c :: nat) \<and> (of_char c :: nat) \<le> 122)"

definition isWhitespace :: "char \<Rightarrow> bool" where
  "isWhitespace c \<longleftrightarrow> c \<in> {CHR 0x09, CHR 0x0A, CHR 0x0B, CHR 0x0C, CHR 0x0D, CHR '' ''}"

text \<open>The separator class \<open>[-_\s]\<close> of \<open>toPascalCase\<close>.\<close>

definition isSeparator :: "char \<Rightarrow> bool" where
  "isSeparator c \<longleftrightarrow> c = CHR ''-'' \<or> c = CHR ''_'' \<or> isWhitespace c"

text \<open>
  \<open>str.split(/[-_\s]/)\<close>: every separator character ends a word, so consecutive, leading and
  trailing separators give empty words, and the empty string gives one empty word.
\<close>

fun split_on :: "(char \<Rightarrow> bool) \<Rightarrow> string \<Rightarrow> string list" where
  "split_on p [] = [[]]"
| "split_on p (c # cs) =
     (if p c then [] # split_on p cs
      else (c # hd (split_on p cs)) # tl (split_on p cs))"

text \<open>\<open>str.endsWith(t)\<close> and \<open>str.slice(0, -k)\<close>.\<close>

definition endsWith :: "string \<Rightarrow> string \<Rightarrow> bool" where
  "endsWith s t \<longleftrightarrow> suffix t s"

definition slice_end :: "string \<Rightarrow> nat \<Rightarrow> string" where
  "slice_end s k = take (length s - k) s"

section \<open>StringUtils\<close>

text \<open>\<open>word.charAt(0).toUpperCase() + word.slice(1).toLowerCase()\<close>\<close>

definition capitalize :: "string \<Rightarrow> string" where
  "capitalize w = toUpperCase (take 1 w) @ toLowerCase (drop 1 w)"

definition toPascalCase :: "string \<Rightarrow> string" where
  "toPascalCase str = concat (map capitalize (split_on isSeparator str))"

definition toCamelCase :: "string \<Rightarrow> string" where
  "toCamelCase str =
     (let pascal = toPascalCase str in toLowerCase (take 1 pascal) @ drop 1 pascal)"

definition getSingular :: "string \<Rightarrow> string" where
  "getSingular str =
     (if endsWith str ''ies'' then slice_end str 3 @ ''y''
      else if endsWith str ''s'' \<and> \<not> endsWith str ''ss'' then slice_end str 1
      else str)"

definition getPlural :: "string \<Rightarrow> string" where
  "getPlural str =
     (if endsWith str ''y'' then slice_end str 1 @ ''ies''
      else if \<not> endsWith str ''s'' then str @ ''s''
      else str)"

section \<open>Console output\<close>

text \<open>The four logging methods of \<open>BaseCommand\<close>; a command's output is the list of its log lines.\<close>

datatype log = LogSuccess string | LogError string | LogInfo string | LogWarning string

section \<open>String search and replacement\<close>

text \<open>Index of the first and of the last occurrence of \<open>t\<close> in a text.\<close>

fun find_first :: "string \<Rightarrow> string \<Rightarrow> nat option" where
  "find_first t [] = (if t = [] then Some 0 else None)"
| "find_first t (c # cs) =
     (if prefix t (c # cs) then Some 0 else map_option Suc (find_first t cs))"

fun find_last :: "string \<Rightarrow> string \<Rightarrow> nat option" where
  "find_last t [] = (if t = [] then Some 0 else None)"
| "find_last t (c # cs) =
     (case find_last t cs of
        Some i \<Rightarrow> Some (Suc i)
      | None \<Rightarrow> if prefix t (c # cs) then Some 0 else None)"

definition includesStr :: "string \<Rightarrow> string \<Rightarrow> bool" where
  "includesStr s t \<longleftrightarrow> find_first t s \<noteq> None"

text \<open>\<open>s.indexOf(t, position)\<close> and \<open>s.lastIndexOf(t)\<close>: \<open>-1\<close> when there is no occurrence.\<close>

definition indexOf :: "string \<Rightarrow> string \<Rightarrow> int \<Rightarrow> int" where
  "indexOf s t position =
     (let start = min (nat position) (length s)
      in case find_first t (drop start s) of None \<Rightarrow> - 1 | Some i \<Rightarrow> int (start + i))"

definition lastIndexOf :: "string \<Rightarrow> string \<Rightarrow> int" where
  "lastIndexOf s t = (case find_last t s of None \<Rightarrow> - 1 | Some i \<Rightarrow> int i)"

text \<open>
  \<open>s.substring(start, end)\<close> clamps both indices to \<open>0..length\<close> and swaps them when
  \<open>start > end\<close>; \<open>s.substring(start)\<close> runs to the end of the text.
\<close>

definition substring :: "string \<Rightarrow> int \<Rightarrow> int \<Rightarrow> string" where
  "substring s start stop =
     (let a = min (nat start) (length s); b = min (nat stop) (length s)
      in take (max a b - min a b) (drop (min a b) s))"

definition substring_from :: "string \<Rightarrow> int \<Rightarrow> string" where
  "substring_from s start = drop (nat start) s"

text \<open>
  The replacement text of \<open>String.prototype.replace\<close> with a string pattern: \<open>$$\<close> stands for
  \<open>$\<close>, \<open>$&\<close> for the matched text, \<open>$`\<close> for the text before the match and \<open>$'\<close> for the text
  after it; there are no capture groups, so every other \<open>$\<close> is literal.
\<close>

fun getSubstitution :: "string \<Rightarrow> string \<Rightarrow> string \<Rightarrow> string \<Rightarrow> string" where
  "getSubstitution matched preceding following [] = []"
| "getSubstitution matched preceding following [c] = [c]"
| "getSubstitution matched preceding following (c # d # rest) =
     (if c = CHR ''$'' \<and> d = CHR ''$'' then CHR ''$'' # getSubstitution matched preceding following rest
      else if c = CHR ''$'' \<and> d = CHR ''&'' then matched @ getSubstitution matched preceding following rest
      else if c = CHR ''$'' \<and> d = CHR 0x60 then preceding @ getSubstitution matched preceding following rest
      else if c = CHR ''$'' \<and> d = CHR 0x27 then following @ getSubstitution matched preceding following rest
      else c # getSubstitution matched preceding following (d # rest))"

text \<open>\<open>s.replace(pattern, replacement)\<close> with a string pattern replaces the first occurrence.\<close>

definition replace :: "string \<Rightarrow> string \<Rightarrow> string \<Rightarrow> string" where
  "replace s pattern replacement =
     (case find_first pattern s of
        None \<Rightarrow> s
      | Some i \<Rightarrow>
          (let preceding = take i s; following = drop (i + length pattern) s
           in preceding @ getSubstitution pattern preceding following replacement @ following))"

section \<open>DatabaseStrategyFactory\<close>

datatype DatabaseStrategy = PrismaStrategy

datatype error = Error string

text \<open>\<open>getStrategy\<close>: a \<open>switch\<close> on \<open>name.toLowerCase()\<close> whose default case throws.\<close>

definition getStrategy :: "string \<Rightarrow> error + DatabaseStrategy" where
  "getStrategy name =
     (if toLowerCase name = ''prisma'' then Inr PrismaStrategy
      else Inl (Error (''Unsupported database strategy: '' @ name)))"

section \<open>ModuleCommand.updateAppModule\<close>

text \<open>
  The updater that \<open>updateAppModule\<close> hands to \<open>FileUtils.updateFile\<close> maps the content of
  \<open>app.module.ts\<close> to its new content and logs warnings. It is \<open>patch\<close> below, with the
  import statement and the module class name as parameters; \<open>addImportStatement\<close> and
  \<open>addToImportsArray\<close> are its two steps.
\<close>

text \<open>Add import statement: after the \<open>;\<close> that follows the last \<open>import\<close>, or at the start.\<close>

definition addImportStatement :: "string \<Rightarrow> string \<Rightarrow> string" where
  "addImportStatement updatedContent importStatement =
     (if includesStr updatedContent ''import {'' then
        (let lastImportIndex = lastIndexOf updatedContent ''import'';
             endOfImportIndex = indexOf updatedContent '';'' lastImportIndex + 1
         in substring updatedContent 0 endOfImportIndex @ ''\<newline>'' @ importStatement @
            substring_from updatedContent endOfImportIndex)
      else importStatement @ ''\<newline>'' @ updatedContent)"

text \<open>Add to imports array in the \<open>@Module\<close> decorator.\<close>

definition addToImportsArray :: "string \<Rightarrow> string \<Rightarrow> string \<times> log list" where
  "addToImportsArray updatedContent moduleClassName =
     (if includesStr updatedContent ''imports: ['' then
        (replace updatedContent ''imports: [''
           (''imports: [\<newline>    '' @ moduleClassName @ '',''), [])
      else if includesStr updatedContent ''imports: [],'' then
        (replace updatedContent ''imports: [],'' (''imports: ['' @ moduleClassName @ ''],''), [])
      else
        (updatedContent,
         [LogWarning ''Could not find imports array in AppModule. Please add it manually.'']))"

definition patch :: "string \<Rightarrow> string \<Rightarrow> string \<Rightarrow> string \<times> log list" where
  "patch content importStatement moduleClassName =
     (if includesStr content moduleClassName then
        (content, [LogWarning (moduleClassName @ '' is already imported in AppModule.'')])
      else addToImportsArray (addImportStatement content importStatement) moduleClassName)"

definition moduleClassName :: "string \<Rightarrow> string" where
  "moduleClassName moduleName = toPascalCase (getSingular moduleName) @ ''Module''"

definition importStatement :: "string \<Rightarrow> string" where
  "importStatement moduleName =
     ''import { '' @ moduleClassName moduleName @ '' } from '' @ [CHR 0x27] @ ''./'' @ moduleName @
     ''/'' @ moduleName @ ''.module'' @ [CHR 0x27] @ '';''"

text \<open>
  \<open>updateAppModule\<close> on the content of \<open>src/app.module.ts\<close>, \<open>None\<close> when the file does not
  exist: the new content and the log.
\<close>

definition updateAppModule :: "string \<Rightarrow> string option \<Rightarrow> string option \<times> log list" where
  "updateAppModule moduleName appModule =
     (case appModule of
        None \<Rightarrow> (None, [LogWarning ''Warning: app.module.ts not found. Could not update app module.''])
      | Some content \<Rightarrow>
          (let (updatedContent, logs) =
                 patch content (importStatement moduleName) (moduleClassName moduleName)
           in (Some updatedContent, logs)))"

section \<open>AllCommand\<close>

text \<open>
  Step 5 of \<open>AllCommand.execute\<close>: the list the module loop runs over, and the warning
  logged on the way. The step is skipped when no module is requested. With authentication
  and a requested \<open>user\<close> or \<open>users\<close>, \<open>filter\<close> builds a new array, \<open>unshift\<close> prepends
  to that array, and the value of the statement is dropped, so \<open>modulesToCreate\<close> stays the
  requested list; otherwise \<open>unshift\<close> prepends to \<open>modulesToCreate\<close> itself.
\<close>

definition modulesToCreate :: "bool \<Rightarrow> string list \<Rightarrow> string list \<times> log list" where
  "modulesToCreate auth modules =
     (if modules = [] then ([], [])
      else if auth then
        (if ''user'' \<in> set modules \<or> ''users'' \<in> set modules then
           (let filtered =
                  ''user'' # filter (\<lambda>module. module \<noteq> ''user'' \<and> module \<noteq> ''users'') modules
            in (modules,
                [LogWarning (''Skipping '' @ [CHR 0x27] @ ''user'' @ [CHR 0x27] @
                   '' module since it'' @ [CHR 0x27] @
                   ''s already created by the authentication module.'')]))
         else (''user'' # modules, []))
      else (modules, []))"

text \<open>The names the module loop passes to \<open>ModuleCommand.execute\<close>.\<close>

definition pluralModuleNames :: "bool \<Rightarrow> string list \<Rightarrow> string list" where
  "pluralModuleNames auth modules = map getPlural (fst (modulesToCreate auth modules))"

section \<open>Case conversion\<close>

lemma char_eqI: "(of_char a :: nat) = of_char b \<Longrightarrow> a = b"
  by (metis char_of_char)

lemma toUpperChar_code:
  "(of_char (toUpperChar c) :: nat) =
     (if 97 \<le> (of_char c :: nat) \<and> (of_char c :: nat) \<le> 122 then of_char c - 32 else of_char c)"
proof (cases "97 \<le> (of_char c :: nat) \<and> (of_char c :: nat) \<le> 122")
  case True
  then have "(of_char c :: nat) - 32 < 256" by arith
  then have "((of_char c :: nat) - 32) mod 256 = of_char c - 32" by (rule mod_less)
  with True show ?thesis by (simp add: toUpperChar_def Let_def of_char_of)
next
  case False
  then show ?thesis by (auto simp add: toUpperChar_def Let_def)
qed

lemma toLowerChar_code:
  "(of_char (toLowerChar c) :: nat) =
     (if 65 \<le> (of_char c :: nat) \<and> (of_char c :: nat) \<le> 90 then of_char c + 32 else of_char c)"
proof (cases "65 \<le> (of_char c :: nat) \<and> (of_char c :: nat) \<le> 90")
  case True
  then have "(of_char c :: nat) + 32 < 256" by arith
  then have "((of_char c :: nat) + 32) mod 256 = of_char c + 32" by (rule mod_less)
  with True show ?thesis by (simp add: toLowerChar_def Let_def of_char_of)
next
  case False
  then show ?thesis by (auto simp add: toLowerChar_def Let_def)
qed

lemma toLowerChar_toUpperChar: "toLowerChar (toUpperChar c) = toLowerChar c"
  by (rule char_eqI) (auto simp add: toLowerChar_code toUpperChar_code)

lemma toLowerChar_idem: "toLowerChar (toLowerChar c) = toLowerChar c"
  by (rule char_eqI) (auto simp add: toLowerChar_code)

lemma char_eq_code: "c = d \<longleftrightarrow> (of_char c :: nat) = of_char d"
  by (auto intro: char_eqI)

lemma isSeparator_code:
  "isSeparator c \<longleftrightarrow> (of_char c :: nat) \<in> {45, 95, 9, 10, 11, 12, 13, 32}"
  unfolding isSeparator_def isWhitespace_def insert_iff empty_iff
  unfolding char_eq_code [of c "CHR ''-''"] char_eq_code [of c "CHR ''_''"]
    char_eq_code [of c "CHR 0x09"] char_eq_code [of c "CHR 0x0A"] char_eq_code [of c "CHR 0x0B"]
    char_eq_code [of c "CHR 0x0C"] char_eq_code [of c "CHR 0x0D"] char_eq_code [of c "CHR '' ''"]
  by simp

lemma isSeparator_toUpperChar: "isSeparator (toUpperChar c) \<longleftrightarrow> isSeparator c"
  by (auto simp add: isSeparator_code toUpperChar_code)

lemma isSeparator_toLowerChar: "isSeparator (toLowerChar c) \<longleftrightarrow> isSeparator c"
  by (auto simp add: isSeparator_code toLowerChar_code)

lemma split_on_nonempty: "split_on p s \<noteq> []"
  by (induction s) simp_all

lemma split_on_words: "w \<in> set (split_on p s) \<Longrightarrow> c \<in> set w \<Longrightarrow> \<not> p c"
proof (induction s arbitrary: w)
  case Nil
  then show ?case by simp
next
  case (Cons a s)
  obtain v vs where vs: "split_on p s = v # vs"
    using split_on_nonempty [of p s] by (cases "split_on p s") auto
  show ?case
  proof (cases "p a")
    case True
    with Cons.prems have "w = [] \<or> w \<in> set (split_on p s)" by simp
    with Cons show ?thesis by auto
  next
    case False
    with Cons.prems vs have "w = a # v \<or> w \<in> set vs" by simp
    then show ?thesis
    proof
      assume "w = a # v"
      with Cons.prems(2) have "c = a \<or> c \<in> set v" by simp
      with False Cons.IH [of v] vs show ?thesis by auto
    next
      assume "w \<in> set vs"
      with Cons vs show ?thesis by auto
    qed
  qed
qed

lemma split_on_none: "\<forall>c \<in> set s. \<not> p c \<Longrightarrow> split_on p s = [s]"
  by (induction s) simp_all

lemma lower_first_capitalize:
  "toLowerCase (take 1 (capitalize w)) @ drop 1 (capitalize w) = toLowerCase w"
  by (cases w) (simp_all add: capitalize_def toLowerCase_def toUpperCase_def toLowerChar_toUpperChar)

lemma toLowerCase_capitalize: "toLowerCase (capitalize w) = toLowerCase w"
  by (cases w)
    (simp_all add: capitalize_def toLowerCase_def toUpperCase_def toLowerChar_toUpperChar
      toLowerChar_idem)

lemma capitalize_no_separator:
  "\<forall>c \<in> set w. \<not> isSeparator c \<Longrightarrow> \<forall>c \<in> set (capitalize w). \<not> isSeparator c"
  by (cases w)
    (auto simp add: capitalize_def toLowerCase_def toUpperCase_def isSeparator_toUpperChar
      isSeparator_toLowerChar)

lemma toPascalCase_no_separator: "c \<in> set (toPascalCase x) \<Longrightarrow> \<not> isSeparator c"
proof -
  assume "c \<in> set (toPascalCase x)"
  then obtain w where w: "w \<in> set (split_on isSeparator x)" and c: "c \<in> set (capitalize w)"
    by (auto simp add: toPascalCase_def)
  from w have "\<forall>d \<in> set w. \<not> isSeparator d"
    by (auto dest: split_on_words)
  with c show ?thesis
    using capitalize_no_separator [of w] by blast
qed

lemma toPascalCase_word: "\<forall>c \<in> set w. \<not> isSeparator c \<Longrightarrow> toPascalCase w = capitalize w"
  by (simp add: toPascalCase_def split_on_none)

lemma toCamelCase_word: "\<forall>c \<in> set w. \<not> isSeparator c \<Longrightarrow> toCamelCase w = toLowerCase w"
  using lower_first_capitalize [of w] by (simp add: toCamelCase_def Let_def toPascalCase_word)

lemma toLowerCase_toCamelCase: "toLowerCase (toCamelCase x) = toLowerCase (toPascalCase x)"
proof -
  have "toLowerCase (toLowerCase (take 1 p) @ drop 1 p) = toLowerCase p" for p
    by (cases p) (simp_all add: toLowerCase_def toLowerChar_idem)
  then show ?thesis by (simp add: toCamelCase_def Let_def)
qed

section \<open>Singular and plural\<close>

lemma last_three_cases:
  obtains "x = []" | a where "x = [a]" | b a where "x = [b, a]"
  | p c b a where "x = p @ [c, b, a]"
proof (cases x rule: rev_cases)
  case Nil
  then show ?thesis using that by simp
next
  case (snoc ys a)
  show ?thesis
  proof (cases ys rule: rev_cases)
    case Nil
    with snoc show ?thesis using that by simp
  next
    case (snoc zs b)
    with \<open>x = ys @ [a]\<close> show ?thesis
      using that by (cases zs rule: rev_cases) auto
  qed
qed

lemma singular_plural_iff:
  "getSingular (getPlural x) = x \<longleftrightarrow>
     endsWith x ''ss'' \<or> (\<not> endsWith x ''s'' \<and> \<not> endsWith x ''ie'')"
  by (cases x rule: last_three_cases)
    (auto simp add: getPlural_def getSingular_def endsWith_def slice_end_def suffix_to_prefix)

lemma plural_singular_plural_iff:
  "getPlural (getSingular (getPlural x)) = getPlural x \<longleftrightarrow> \<not> endsWith x ''ys''"
  by (cases x rule: last_three_cases)
    (auto simp add: getPlural_def getSingular_def endsWith_def slice_end_def suffix_to_prefix)

section \<open>Search, replacement and the updater\<close>

lemma find_first_None_iff: "find_first t s = None \<longleftrightarrow> \<not> sublist t s"
  by (induction s) (auto simp add: sublist_Cons_right)

lemma includesStr_iff: "includesStr s t \<longleftrightarrow> sublist t s"
  by (simp add: includesStr_def find_first_None_iff)

lemma find_first_Some:
  "find_first t s = Some i \<Longrightarrow> s = take i s @ t @ drop (i + length t) s"
proof (induction s arbitrary: i)
  case Nil
  then show ?case by (simp split: if_splits)
next
  case (Cons c cs)
  show ?case
  proof (cases "prefix t (c # cs)")
    case True
    with Cons.prems have "i = 0" by simp
    with True show ?thesis by (auto simp add: prefix_def)
  next
    case False
    with Cons.prems obtain j where j: "find_first t cs = Some j" "i = Suc j" by auto
    from Cons.IH [OF j(1)] j(2) show ?thesis by simp
  qed
qed

lemma getSubstitution_no_dollar:
  "CHR ''$'' \<notin> set t \<Longrightarrow> getSubstitution m b a t = t"
  by (induction m b a t rule: getSubstitution.induct) auto

lemma getSubstitution_append:
  "CHR ''$'' \<notin> set p \<Longrightarrow> getSubstitution m b a (p @ t) = p @ getSubstitution m b a t"
proof (induction p)
  case Nil
  then show ?case by simp
next
  case (Cons c p)
  then show ?case by (cases "p @ t") auto
qed

lemma replace_found:
  assumes "includesStr s pat"
  obtains pre post where "s = pre @ pat @ post"
    and "replace s pat r = pre @ getSubstitution pat pre post r @ post"
proof -
  from assms obtain i where i: "find_first pat s = Some i"
    by (auto simp add: includesStr_def)
  let ?pre = "take i s" and ?post = "drop (i + length pat) s"
  have "s = ?pre @ pat @ ?post" using i by (rule find_first_Some)
  moreover have "replace s pat r = ?pre @ getSubstitution pat ?pre ?post r @ ?post"
    using i by (simp add: replace_def Let_def)
  ultimately show ?thesis by (rule that)
qed

lemma addImportStatement_shape:
  obtains pre post where "T = pre @ post"
    and "addImportStatement T I = pre @ ''\<newline>'' @ I @ post \<or>
         pre = [] \<and> addImportStatement T I = I @ ''\<newline>'' @ T"
proof (cases "includesStr T ''import {''")
  case True
  define e where "e = indexOf T '';'' (lastIndexOf T ''import'') + 1"
  define k where "k = min (nat e) (length T)"
  have "substring T 0 e = take k T"
    by (simp add: substring_def k_def Let_def)
  moreover have "substring_from T e = drop k T"
    by (cases "nat e \<le> length T") (simp_all add: substring_from_def k_def min_def)
  ultimately have "addImportStatement T I = take k T @ ''\<newline>'' @ I @ drop k T"
    using True by (simp add: addImportStatement_def e_def Let_def)
  moreover have "T = take k T @ drop k T" by simp
  ultimately show ?thesis using that by blast
next
  case False
  then have "addImportStatement T I = I @ ''\<newline>'' @ T"
    by (simp add: addImportStatement_def)
  then show ?thesis using that [of "[]" T] by simp
qed


lemma addImportStatement_includes: "includesStr (addImportStatement T I) I"
proof -
  obtain pre post where
    "addImportStatement T I = pre @ ''\<newline>'' @ I @ post \<or>
       pre = [] \<and> addImportStatement T I = I @ ''\<newline>'' @ T"
    by (rule addImportStatement_shape)
  then show ?thesis
  proof
    assume "addImportStatement T I = pre @ ''\<newline>'' @ I @ post"
    then have "addImportStatement T I = (pre @ ''\<newline>'') @ I @ post" by simp
    then show ?thesis unfolding includesStr_iff by (metis sublist_appendI)
  next
    assume "pre = [] \<and> addImportStatement T I = I @ ''\<newline>'' @ T"
    then show ?thesis by (simp add: includesStr_iff)
  qed
qed

lemma sublist_trans': "sublist a b \<Longrightarrow> sublist b c \<Longrightarrow> sublist a c"
  by (rule sublist_order.order_trans)

text \<open>Text inserted after \<open>a\<close> splits no occurrence of \<open>R\<close> when \<open>R\<close> lacks the last character of \<open>a\<close>.\<close>

lemma sublist_insert_after:
  assumes "sublist R (a @ b)" and "a \<noteq> []" and "last a \<notin> set R"
  shows "sublist R (a @ m @ b)"
proof -
  from assms(1) consider "sublist R a" | "sublist R b"
    | R1 R2 where "R = R1 @ R2" "suffix R1 a" "prefix R2 b"
    by (auto simp add: sublist_append)
  then show ?thesis
  proof cases
    case 1
    then show ?thesis by (auto simp add: sublist_append)
  next
    case 2
    then show ?thesis by (auto simp add: sublist_append)
  next
    case 3
    show ?thesis
    proof (cases "R1 = []")
      case True
      with 3 have "sublist R b" by auto
      then show ?thesis by (auto simp add: sublist_append)
    next
      case False
      from 3(2) obtain p where "a = p @ R1" by (auto simp add: suffix_def)
      with False have "last a = last R1" by simp
      with False 3(1) have "last a \<in> set R" by auto
      with assms(3) show ?thesis by blast
    qed
  qed
qed

lemma addToImportsArray_includes:
  assumes R: "CHR ''['' \<notin> set R \<or> CHR ''$'' \<notin> set R" and U: "includesStr U R"
  shows "includesStr (fst (addToImportsArray U R)) R"
proof (cases "includesStr U ''imports: [''")
  case True
  then obtain pre post where split: "U = pre @ ''imports: ['' @ post"
    and r: "replace U ''imports: ['' (''imports: [\<newline>    '' @ R @ '','') =
          pre @ getSubstitution ''imports: ['' pre post (''imports: [\<newline>    '' @ R @ '','') @ post"
    by (rule replace_found)
  let ?X = "getSubstitution ''imports: ['' pre post (R @ '','')"
  have "getSubstitution ''imports: ['' pre post (''imports: [\<newline>    '' @ R @ '','') =
      ''imports: [\<newline>    '' @ ?X"
    by (rule getSubstitution_append) simp
  with r True have res: "fst (addToImportsArray U R) =
      (pre @ ''imports: ['') @ (''\<newline>    '' @ ?X) @ post"
    by (simp add: addToImportsArray_def)
  from R show ?thesis
  proof
    assume "CHR ''['' \<notin> set R"
    moreover from U split have "sublist R ((pre @ ''imports: ['') @ post)"
      by (simp add: includesStr_iff)
    ultimately have "sublist R ((pre @ ''imports: ['') @ (''\<newline>    '' @ ?X) @ post)"
      by (intro sublist_insert_after) simp_all
    with res show ?thesis by (simp add: includesStr_iff)
  next
    assume "CHR ''$'' \<notin> set R"
    then have "?X = R @ '',''"
      by (intro getSubstitution_no_dollar) simp
    with res have "fst (addToImportsArray U R) =
        (pre @ ''imports: [\<newline>    '') @ R @ ('','' @ post)"
      by simp
    then show ?thesis unfolding includesStr_iff by (metis sublist_appendI)
  qed
next
  case False
  have "sublist ''imports: ['' ''imports: [],''"
    by (simp add: sublist_Cons_right)
  with False have "\<not> includesStr U ''imports: [],''"
    unfolding includesStr_iff by (blast intro: sublist_trans')
  with False U show ?thesis by (simp add: addToImportsArray_def)
qed

lemma patch_includes:
  assumes "includesStr I R" and "CHR ''['' \<notin> set R \<or> CHR ''$'' \<notin> set R"
  shows "includesStr (fst (patch T I R)) R"
proof (cases "includesStr T R")
  case True
  then show ?thesis by (simp add: patch_def)
next
  case False
  have "includesStr (addImportStatement T I) R"
    using assms(1) addImportStatement_includes [of T I]
    unfolding includesStr_iff by (rule sublist_trans')
  with assms(2) have "includesStr (fst (addToImportsArray (addImportStatement T I) R)) R"
    by (rule addToImportsArray_includes)
  with False show ?thesis by (simp add: patch_def)
qed

lemma insert_subseq: "subseq (a @ b) (a @ m @ b)"
  by (simp add: subseq_append' list_emb_append2)

lemma addImportStatement_subseq: "subseq T (addImportStatement T I)"
proof -
  obtain pre post where split: "T = pre @ post"
    and shape: "addImportStatement T I = pre @ ''\<newline>'' @ I @ post \<or>
      pre = [] \<and> addImportStatement T I = I @ ''\<newline>'' @ T"
    by (rule addImportStatement_shape)
  from shape show ?thesis
  proof
    assume "addImportStatement T I = pre @ ''\<newline>'' @ I @ post"
    then have "addImportStatement T I = pre @ (''\<newline>'' @ I) @ post" by simp
    with split show ?thesis by (simp only: insert_subseq)
  next
    assume "pre = [] \<and> addImportStatement T I = I @ ''\<newline>'' @ T"
    then have "addImportStatement T I = [] @ (I @ ''\<newline>'') @ T" by simp
    then show ?thesis using insert_subseq [of "[]" T "I @ ''\<newline>''"] by simp
  qed
qed

lemma addToImportsArray_subseq: "subseq U (fst (addToImportsArray U R))"
proof (cases "includesStr U ''imports: [''")
  case True
  then obtain pre post where U: "U = pre @ ''imports: ['' @ post"
    and r: "replace U ''imports: ['' (''imports: [\<newline>    '' @ R @ '','') =
          pre @ getSubstitution ''imports: ['' pre post (''imports: [\<newline>    '' @ R @ '','') @ post"
    by (rule replace_found)
  have "getSubstitution ''imports: ['' pre post (''imports: [\<newline>    '' @ R @ '','') =
      ''imports: [\<newline>    '' @ getSubstitution ''imports: ['' pre post (R @ '','')"
    by (rule getSubstitution_append) simp
  with r True have "fst (addToImportsArray U R) =
      (pre @ ''imports: ['') @ (''\<newline>    '' @ getSubstitution ''imports: ['' pre post (R @ '','')) @ post"
    by (simp add: addToImportsArray_def)
  moreover from U have "U = (pre @ ''imports: ['') @ post" by simp
  ultimately show ?thesis by (simp only: insert_subseq)
next
  case False
  have "sublist ''imports: ['' ''imports: [],''"
    by (simp add: sublist_Cons_right)
  with False have "\<not> includesStr U ''imports: [],''"
    unfolding includesStr_iff by (blast intro: sublist_trans')
  with False show ?thesis by (simp add: addToImportsArray_def)
qed

lemma patch_subseq: "subseq T (fst (patch T I R))"
proof (cases "includesStr T R")
  case True
  then show ?thesis by (simp add: patch_def)
next
  case False
  have "subseq T (addImportStatement T I)"
    by (rule addImportStatement_subseq)
  also have "subseq \<dots> (fst (addToImportsArray (addImportStatement T I) R))"
    by (rule addToImportsArray_subseq)
  finally show ?thesis using False by (simp add: patch_def)
qed

lemma toUpperChar_cases: "toUpperChar c = c \<or> isLetter (toUpperChar c)"
proof (cases "97 \<le> (of_char c :: nat) \<and> (of_char c :: nat) \<le> 122")
  case True
  then have "65 \<le> (of_char (toUpperChar c) :: nat) \<and> (of_char (toUpperChar c) :: nat) \<le> 90"
    unfolding toUpperChar_code by auto
  then show ?thesis by (simp add: isLetter_def)
next
  case False
  then have "toUpperChar c = c"
    by (auto simp add: toUpperChar_def Let_def)
  then show ?thesis ..
qed

lemma toLowerChar_cases: "toLowerChar c = c \<or> isLetter (toLowerChar c)"
proof (cases "65 \<le> (of_char c :: nat) \<and> (of_char c :: nat) \<le> 90")
  case True
  then have "97 \<le> (of_char (toLowerChar c) :: nat) \<and> (of_char (toLowerChar c) :: nat) \<le> 122"
    unfolding toLowerChar_code by auto
  then show ?thesis by (simp add: isLetter_def)
next
  case False
  then have "toLowerChar c = c"
    by (auto simp add: toLowerChar_def Let_def)
  then show ?thesis ..
qed

lemma capitalize_chars: "d \<in> set (capitalize w) \<Longrightarrow> d \<in> set w \<or> isLetter d"
proof -
  assume "d \<in> set (capitalize w)"
  moreover have "set (capitalize w) \<subseteq> toUpperChar ` set w \<union> toLowerChar ` set w"
    by (cases w) (auto simp add: capitalize_def toUpperCase_def toLowerCase_def)
  ultimately obtain c where c: "c \<in> set w" and "toUpperChar c = d \<or> toLowerChar c = d"
    by force
  then show ?thesis
    using toUpperChar_cases [of c] toLowerChar_cases [of c] by auto
qed

lemma split_on_set: "w \<in> set (split_on p s) \<Longrightarrow> set w \<subseteq> set s"
proof (induction s arbitrary: w)
  case Nil
  then show ?case by simp
next
  case (Cons a s)
  obtain v vs where vs: "split_on p s = v # vs"
    using split_on_nonempty [of p s] by (cases "split_on p s") auto
  show ?case
  proof (cases "p a")
    case True
    with Cons.prems have "w = [] \<or> w \<in> set (split_on p s)" by simp
    with Cons.IH show ?thesis by auto
  next
    case False
    with Cons.prems vs have "w = a # v \<or> w \<in> set vs" by simp
    with Cons.IH [of v] Cons.IH [of w] vs show ?thesis by auto
  qed
qed

lemma toPascalCase_chars: "d \<in> set (toPascalCase s) \<Longrightarrow> d \<in> set s \<or> isLetter d"
proof -
  assume "d \<in> set (toPascalCase s)"
  then obtain w where w: "w \<in> set (split_on isSeparator s)" and "d \<in> set (capitalize w)"
    by (auto simp add: toPascalCase_def)
  then have "d \<in> set w \<or> isLetter d" by (auto dest: capitalize_chars)
  with w show ?thesis by (auto dest: split_on_set)
qed

lemma getSingular_chars: "d \<in> set (getSingular s) \<Longrightarrow> d \<in> set s \<or> isLetter d"
proof -
  have "isLetter (CHR ''y'')" by (simp add: isLetter_def)
  moreover assume "d \<in> set (getSingular s)"
  ultimately show ?thesis
    by (auto simp add: getSingular_def slice_end_def split: if_splits dest: in_set_takeD)
qed

text \<open>
  The arguments that \<open>updateAppModule\<close> passes to its updater. The class name is made of
  characters of the module name and of letters; the import statement holds the class name,
  ends in \<open>;\<close>, and holds \<open>imports: [\<close> only if the module name has a \<open>[\<close>.
\<close>

lemma moduleClassName_chars: "d \<in> set (moduleClassName m) \<Longrightarrow> d \<in> set m \<or> isLetter d"
proof -
  have "isLetter d" if "d \<in> set ''Module''"
    using that by (auto simp add: isLetter_def)
  moreover assume "d \<in> set (moduleClassName m)"
  ultimately show ?thesis
    unfolding moduleClassName_def by (auto dest!: toPascalCase_chars getSingular_chars)
qed

lemma moduleClassName_bracket:
  "CHR ''['' \<notin> set m \<Longrightarrow> CHR ''['' \<notin> set (moduleClassName m)"
  by (auto dest: moduleClassName_chars simp add: isLetter_def)

lemma importStatement_includes: "includesStr (importStatement m) (moduleClassName m)"
  unfolding includesStr_iff importStatement_def by (rule sublist_appendI)

lemma importStatement_ends: "endsWith (importStatement m) '';''"
  by (simp add: importStatement_def endsWith_def suffix_def)

lemma importStatement_no_anchor:
  assumes "CHR ''['' \<notin> set m"
  shows "\<not> includesStr (importStatement m) ''imports: [''"
proof
  assume "includesStr (importStatement m) ''imports: [''"
  then have "set ''imports: ['' \<subseteq> set (importStatement m)"
    unfolding includesStr_iff by (rule set_mono_sublist)
  then have "CHR ''['' \<in> set (importStatement m)" by simp
  then have "CHR ''['' \<in> set (moduleClassName m) \<or> CHR ''['' \<in> set m"
    by (auto simp add: importStatement_def)
  with assms show False
    by (auto dest: moduleClassName_chars simp add: isLetter_def)
qed

lemma updateAppModule_idempotent:
  assumes "CHR ''['' \<notin> set m"
  shows "fst (updateAppModule m (fst (updateAppModule m (Some T)))) =
    fst (updateAppModule m (Some T))"
proof -
  let ?I = "importStatement m" and ?R = "moduleClassName m"
  have run: "fst (updateAppModule m (Some X)) = Some (fst (patch X ?I ?R))" for X
    by (simp add: updateAppModule_def split: prod.splits)
  from assms have "CHR ''['' \<notin> set ?R \<or> CHR ''$'' \<notin> set ?R"
    by (simp add: moduleClassName_bracket)
  with importStatement_includes have "includesStr (fst (patch T ?I ?R)) ?R"
    by (rule patch_includes)
  then have "fst (patch (fst (patch T ?I ?R)) ?I ?R) = fst (patch T ?I ?R)"
    by (simp add: patch_def)
  then show ?thesis
    by (simp add: run)
qed


text \<open>
  The branch for the empty list \<open>imports: [],\<close> is never taken: a text that holds
  \<open>imports: [],\<close> holds \<open>imports: [\<close>, which the branch before it tests.
\<close>

lemma empty_list_branch_unreachable:
  assumes "includesStr U ''imports: [],''"
  shows "addToImportsArray U R =
    (replace U ''imports: ['' (''imports: [\<newline>    '' @ R @ '',''), [])"
proof -
  have s: "sublist ''imports: ['' ''imports: [],''"
    by (simp add: sublist_Cons_right)
  from assms have "sublist ''imports: [],'' U"
    by (simp add: includesStr_iff)
  with s have "sublist ''imports: ['' U"
    by (rule sublist_trans')
  then show ?thesis by (simp add: addToImportsArray_def includesStr_iff)
qed

section \<open>Claims about StringUtils\<close>

text \<open>
  The round trip of C3 fails on a token of two words: the class form has lost the word
  boundary, so the property form taken from it is all lower case.
\<close>

theorem camel_of_pascal_counterexample:
  "toCamelCase (toPascalCase ''user-service'') = ''userservice'' \<and>
   toCamelCase ''user-service'' = ''userService'' \<and>
   toCamelCase (toPascalCase ''user-service'') \<noteq> toCamelCase ''user-service''"
  by code_simp

text \<open>
  C3, amended. For every token \<open>x\<close>, \<open>toCamelCase (toPascalCase x)\<close> is the lower-cased
  \<open>toCamelCase x\<close>; the two are equal for every token of one word, that is, one without
  \<open>-\<close>, \<open>_\<close> or white space.
\<close>

theorem camel_of_pascal:
  "toCamelCase (toPascalCase x) = toLowerCase (toCamelCase x) \<and>
   ((\<forall>c \<in> set x. \<not> isSeparator c) \<longrightarrow> toCamelCase (toPascalCase x) = toCamelCase x)"
proof -
  have p: "\<forall>c \<in> set (toPascalCase x). \<not> isSeparator c"
    by (auto dest: toPascalCase_no_separator)
  then have 1: "toCamelCase (toPascalCase x) = toLowerCase (toPascalCase x)"
    by (rule toCamelCase_word)
  then have 2: "toCamelCase (toPascalCase x) = toLowerCase (toCamelCase x)"
    by (simp add: toLowerCase_toCamelCase)
  have "toCamelCase (toPascalCase x) = toCamelCase x" if w: "\<forall>c \<in> set x. \<not> isSeparator c"
    using 1 w by (simp add: toPascalCase_word toCamelCase_word toLowerCase_capitalize)
  with 2 show ?thesis by blast
qed

theorem camel_of_pascal_witness:
  "toCamelCase (toPascalCase ''invoice'') = toLowerCase (toCamelCase ''invoice'') \<and>
   toCamelCase (toPascalCase ''invoice'') = toCamelCase ''invoice'' \<and>
   toCamelCase ''invoice'' = ''invoice''"
proof -
  have h: "\<forall>c \<in> set ''invoice''. \<not> isSeparator c"
    by code_simp
  have v: "toCamelCase ''invoice'' = ''invoice''"
    by code_simp
  from h v camel_of_pascal [of "''invoice''"] show ?thesis
    by blast
qed

text \<open>
  The rule set of C4 fails on a token that ends in \<open>ss\<close>: \<open>getPlural\<close> leaves every token
  that ends in \<open>s\<close> as it is.
\<close>

theorem plural_of_ss_counterexample:
  "endsWith ''class'' ''ss'' \<and> getPlural ''class'' = ''class'' \<and>
   getPlural ''class'' \<noteq> ''class'' @ ''s''"
  by code_simp

text \<open>
  C4, amended. \<open>getPlural\<close>: a trailing \<open>y\<close> becomes \<open>ies\<close>; a token that ends neither in
  \<open>y\<close> nor in \<open>s\<close> gets \<open>s\<close> appended; every token that ends in \<open>s\<close>, \<open>ss\<close> included, is
  returned as it is. \<open>getSingular\<close>: a trailing \<open>ies\<close> becomes \<open>y\<close>; any other token that ends
  in \<open>s\<close> but not in \<open>ss\<close> loses its last \<open>s\<close>; every token that does not end in \<open>s\<close>, or
  ends in \<open>ss\<close>, is returned as it is.
\<close>

theorem plural_singular_rules:
  "getPlural (p @ ''y'') = p @ ''ies'' \<and>
   (\<not> endsWith x ''y'' \<and> \<not> endsWith x ''s'' \<longrightarrow> getPlural x = x @ ''s'') \<and>
   (endsWith x ''s'' \<longrightarrow> getPlural x = x) \<and>
   getSingular (p @ ''ies'') = p @ ''y'' \<and>
   (\<not> endsWith (p @ ''s'') ''ies'' \<and> \<not> endsWith (p @ ''s'') ''ss'' \<longrightarrow>
      getSingular (p @ ''s'') = p) \<and>
   (\<not> endsWith x ''s'' \<or> endsWith x ''ss'' \<longrightarrow> getSingular x = x)"
proof -
  have 1: "getPlural (p @ ''y'') = p @ ''ies''"
    by (simp add: getPlural_def endsWith_def slice_end_def)
  have 2: "getPlural x = x @ ''s''" if "\<not> endsWith x ''y''" "\<not> endsWith x ''s''"
    using that by (simp add: getPlural_def)
  have 3: "getPlural x = x" if "endsWith x ''s''"
    using that by (cases x rule: rev_cases) (auto simp add: getPlural_def endsWith_def suffix_to_prefix)
  have 4: "getSingular (p @ ''ies'') = p @ ''y''"
    by (simp add: getSingular_def endsWith_def slice_end_def suffix_to_prefix)
  have 5: "getSingular (p @ ''s'') = p"
    if "\<not> endsWith (p @ ''s'') ''ies''" "\<not> endsWith (p @ ''s'') ''ss''"
    using that by (simp add: getSingular_def endsWith_def slice_end_def suffix_to_prefix)
  have 6: "getSingular x = x" if "\<not> endsWith x ''s'' \<or> endsWith x ''ss''"
    using that by (cases x rule: last_three_cases)
      (auto simp add: getSingular_def endsWith_def suffix_to_prefix)
  from 1 2 3 4 5 6 show ?thesis by blast
qed

theorem plural_singular_rules_witness:
  "getPlural (''categor'' @ ''y'') = ''categor'' @ ''ies'' \<and>
   getPlural ''invoice'' = ''invoice'' @ ''s'' \<and>
   getPlural ''class'' = ''class'' \<and>
   getSingular (''categor'' @ ''ies'') = ''categor'' @ ''y'' \<and>
   getSingular (''invoice'' @ ''s'') = ''invoice'' \<and>
   getSingular ''class'' = ''class''"
proof -
  have a: "\<not> endsWith ''invoice'' ''y'' \<and> \<not> endsWith ''invoice'' ''s''"
    by code_simp
  have b: "endsWith ''class'' ''s''"
    by code_simp
  have c: "\<not> endsWith (''invoice'' @ ''s'') ''ies'' \<and> \<not> endsWith (''invoice'' @ ''s'') ''ss''"
    by code_simp
  have d: "\<not> endsWith ''class'' ''s'' \<or> endsWith ''class'' ''ss''"
    by code_simp
  from a plural_singular_rules [of "''categor''" "''invoice''"]
  have 1: "getPlural (''categor'' @ ''y'') = ''categor'' @ ''ies''"
    and 2: "getPlural ''invoice'' = ''invoice'' @ ''s''"
    and 4: "getSingular (''categor'' @ ''ies'') = ''categor'' @ ''y''"
    by blast+
  from b d plural_singular_rules [of "''invoice''" "''class''"]
  have 3: "getPlural ''class'' = ''class''" and 6: "getSingular ''class'' = ''class''"
    by blast+
  from c plural_singular_rules [of "''invoice''" "''class''"]
  have 5: "getSingular (''invoice'' @ ''s'') = ''invoice''"
    by blast
  from 1 2 3 4 5 6 show ?thesis by blast
qed

text \<open>
  The first round trip of C5 fails on the regular noun \<open>movie\<close>, whose plural ends in
  \<open>ies\<close>, and the second on the token \<open>days\<close>.
\<close>

theorem plural_round_trip_counterexample:
  "getPlural ''movie'' = ''movies'' \<and> getSingular (getPlural ''movie'') = ''movy'' \<and>
   getSingular (getPlural ''movie'') \<noteq> ''movie'' \<and>
   getPlural (getSingular (getPlural ''days'')) = ''daies'' \<and>
   getPlural (getSingular (getPlural ''days'')) \<noteq> getPlural ''days''"
  by code_simp

text \<open>
  C5, amended. \<open>getSingular (getPlural x) = x\<close> holds exactly for the tokens that end in
  \<open>ss\<close> or that end neither in \<open>s\<close> nor in \<open>ie\<close>, and
  \<open>getPlural (getSingular (getPlural x)) = getPlural x\<close> holds exactly for the tokens that do
  not end in \<open>ys\<close>.
\<close>

theorem plural_round_trip:
  "(getSingular (getPlural x) = x \<longleftrightarrow>
      endsWith x ''ss'' \<or> (\<not> endsWith x ''s'' \<and> \<not> endsWith x ''ie'')) \<and>
   (getPlural (getSingular (getPlural x)) = getPlural x \<longleftrightarrow> \<not> endsWith x ''ys'')"
  using singular_plural_iff [of x] plural_singular_plural_iff [of x] by (rule conjI)

theorem plural_round_trip_witness:
  "getSingular (getPlural ''category'') = ''category'' \<and>
   getPlural (getSingular (getPlural ''category'')) = getPlural ''category'' \<and>
   getSingular (getPlural ''invoices'') \<noteq> ''invoices''"
proof -
  have a: "\<not> endsWith ''category'' ''s'' \<and> \<not> endsWith ''category'' ''ie''"
    by code_simp
  have b: "\<not> endsWith ''category'' ''ys''"
    by code_simp
  have c: "\<not> endsWith ''invoices'' ''ss'' \<and> endsWith ''invoices'' ''s''"
    by code_simp
  from a b plural_round_trip [of "''category''"]
  have 1: "getSingular (getPlural ''category'') = ''category''"
    and 2: "getPlural (getSingular (getPlural ''category'')) = getPlural ''category''"
    by blast+
  from c plural_round_trip [of "''invoices''"]
  have 3: "getSingular (getPlural ''invoices'') \<noteq> ''invoices''"
    by blast
  from 1 2 3 show ?thesis by blast
qed

section \<open>Claims about the strategy factory\<close>

text \<open>
  The error of C6 names the rejected key but lists no valid key: the message for
  \<open>unknown-backend\<close> does not hold the one registered key, \<open>prisma\<close>.
\<close>

theorem getStrategy_lists_no_keys_counterexample:
  "getStrategy ''unknown-backend'' =
     Inl (Error ''Unsupported database strategy: unknown-backend'') \<and>
   \<not> includesStr ''Unsupported database strategy: unknown-backend'' ''prisma''"
  by code_simp

text \<open>
  C6, amended. For every key whose lower-cased form is not \<open>prisma\<close>, \<open>getStrategy\<close> fails
  with an error whose message is \<open>Unsupported database strategy: \<close> followed by the key as
  given, which names the rejected key and lists no valid key; no key falls back to a
  strategy, and every key whose lower-cased form is \<open>prisma\<close> resolves to the Prisma strategy.
\<close>

theorem getStrategy_resolution:
  "(toLowerCase name \<noteq> ''prisma'' \<longrightarrow>
      getStrategy name = Inl (Error (''Unsupported database strategy: '' @ name)) \<and>
      includesStr (''Unsupported database strategy: '' @ name) name) \<and>
   (getStrategy name = Inr strategy \<longrightarrow> toLowerCase name = ''prisma'') \<and>
   (toLowerCase name = ''prisma'' \<longrightarrow> getStrategy name = Inr PrismaStrategy)"
proof -
  have "includesStr (''Unsupported database strategy: '' @ name) name"
    unfolding includesStr_iff by (rule sublist_append_leftI)
  then show ?thesis
    by (simp add: getStrategy_def)
qed

theorem getStrategy_resolution_witness:
  "getStrategy ''unknown-backend'' =
     Inl (Error (''Unsupported database strategy: '' @ ''unknown-backend'')) \<and>
   includesStr (''Unsupported database strategy: '' @ ''unknown-backend'') ''unknown-backend'' \<and>
   getStrategy ''Prisma'' = Inr PrismaStrategy \<and>
   getStrategy ''PRISMA'' = Inr PrismaStrategy"
proof -
  have a: "toLowerCase ''unknown-backend'' \<noteq> ''prisma''"
    by code_simp
  have b: "toLowerCase ''Prisma'' = ''prisma''" and c: "toLowerCase ''PRISMA'' = ''prisma''"
    by code_simp+
  from a getStrategy_resolution [of "''unknown-backend''"]
  have 1: "getStrategy ''unknown-backend'' =
      Inl (Error (''Unsupported database strategy: '' @ ''unknown-backend'')) \<and>
    includesStr (''Unsupported database strategy: '' @ ''unknown-backend'') ''unknown-backend''"
    by blast
  from b getStrategy_resolution [of "''Prisma''"]
  have 2: "getStrategy ''Prisma'' = Inr PrismaStrategy"
    by blast
  from c getStrategy_resolution [of "''PRISMA''"]
  have 3: "getStrategy ''PRISMA'' = Inr PrismaStrategy"
    by blast
  from 1 2 3 show ?thesis by blast
qed

section \<open>Claims about the updater of app.module.ts\<close>

text \<open>
  C1 on an aggregator whose list is the empty literal: the list comes out as
  \<open>imports: [\<close>, a line break, \<open>FooModule,],\<close> and not as \<open>imports: [FooModule],\<close>.
\<close>

theorem empty_list_literal_not_replaced:
  "fst (patch ''@Module({\<newline>  imports: [],\<newline>})\<newline>export class AppModule {}\<newline>''
     (''import { FooModule } from '' @ [CHR 0x27] @ ''./foo/foo.module'' @ [CHR 0x27] @ '';'')
     ''FooModule'') =
   ''import { FooModule } from '' @ [CHR 0x27] @ ''./foo/foo.module'' @ [CHR 0x27] @ '';'' @
   ''\<newline>@Module({\<newline>  imports: [\<newline>    FooModule,],\<newline>})\<newline>export class AppModule {}\<newline>'' \<and>
   \<not> includesStr
     (fst (patch ''@Module({\<newline>  imports: [],\<newline>})\<newline>export class AppModule {}\<newline>''
        (''import { FooModule } from '' @ [CHR 0x27] @ ''./foo/foo.module'' @ [CHR 0x27] @ '';'')
        ''FooModule''))
     ''imports: [FooModule],''"
  by code_simp


text \<open>
  With an identifier that holds both \<open>[\<close> and \<open>$\<close> the second call can change the text
  although the import line holds the identifier: the array entry is inserted inside the one
  occurrence of the identifier, and \<open>$$\<close> is written out as \<open>$\<close>.
\<close>

lemma patch_twice_with_bracket_and_dollar:
  "includesStr ''imports: [$$'' ''[$$'' \<and>
   fst (patch [] ''imports: [$$'' ''[$$'') = ''imports: [\<newline>    [$,$$\<newline>'' \<and>
   fst (patch (fst (patch [] ''imports: [$$'' ''[$$'')) ''imports: [$$'' ''[$$'') \<noteq>
   fst (patch [] ''imports: [$$'' ''[$$'')"
  by code_simp






text \<open>
  C10. Whenever the identifier \<open>R\<close> occurs anywhere in the text, with any text \<open>p\<close> before it
  and any text \<open>q\<close> after it (a comment, a string literal, a longer identifier), the patch
  returns the text as it is and logs that the module is already imported; nothing is
  inserted.
\<close>

theorem patch_noop_on_any_occurrence:
  "patch (p @ R @ q) I R =
     (p @ R @ q, [LogWarning (R @ '' is already imported in AppModule.'')])"
  by (simp add: patch_def includesStr_iff)

theorem patch_noop_on_any_occurrence_witness:
  "patch (''// TODO: drop Legacy'' @ ''FooModule'' @ ''Adapter\<newline>@Module({\<newline>  imports: [],\<newline>})\<newline>'')
     (importStatement ''foos'') ''FooModule'' =
   (''// TODO: drop Legacy'' @ ''FooModule'' @ ''Adapter\<newline>@Module({\<newline>  imports: [],\<newline>})\<newline>'',
    [LogWarning (''FooModule'' @ '' is already imported in AppModule.'')]) \<and>
   \<not> includesStr (''// TODO: drop Legacy'' @ ''FooModule'' @ ''Adapter\<newline>@Module({\<newline>  imports: [],\<newline>})\<newline>'')
     ''import {''"
proof -
  have "\<not> includesStr (''// TODO: drop Legacy'' @ ''FooModule'' @ ''Adapter\<newline>@Module({\<newline>  imports: [],\<newline>})\<newline>'')
     ''import {''"
    by code_simp
  with patch_noop_on_any_occurrence [of "''// TODO: drop Legacy''" "''FooModule''"
      "''Adapter\<newline>@Module({\<newline>  imports: [],\<newline>})\<newline>''" "importStatement ''foos''"]
  show ?thesis by blast
qed

text \<open>
  C7 on an aggregator whose imports array holds an entry with a \<open>;\<close> in it. The last
  \<open>import\<close> of the text is the one of \<open>imports: [\<close>, the next \<open>;\<close> is inside the entry, and the
  import statement is inserted there: the entry of the input is no longer in the output.
\<close>

theorem import_inserted_inside_entry:
  "(let T = ''import { Module } from '' @ [CHR 0x27] @ ''@nestjs/common'' @ [CHR 0x27] @
          '';\<newline>@Module({\<newline>  imports: [CacheModule.registerAsync({ useFactory: () => { return {}; } })],\<newline>})\<newline>export class AppModule {}\<newline>'';
        entry = ''CacheModule.registerAsync({ useFactory: () => { return {}; } })'';
        U = fst (patch T (importStatement ''foos'') (moduleClassName ''foos''))
    in includesStr T entry \<and> \<not> includesStr U entry \<and>
       U = ''import { Module } from '' @ [CHR 0x27] @ ''@nestjs/common'' @ [CHR 0x27] @
          '';\<newline>@Module({\<newline>  imports: [\<newline>    FooModule,CacheModule.registerAsync({ useFactory: () => { return {};\<newline>'' @
          importStatement ''foos'' @ '' } })],\<newline>})\<newline>export class AppModule {}\<newline>'')"
  by code_simp

section \<open>Claims about the composite workflow\<close>

text \<open>
  C9 on the request for \<open>posts\<close> and \<open>user\<close> with authentication: the list the module loop
  runs over is the requested list, with \<open>user\<close> neither dropped nor put first; the list with
  \<open>user\<close> first and the requested entry filtered out is built and thrown away.
\<close>

theorem explicit_user_module_not_dropped:
  "fst (modulesToCreate True [''posts'', ''user'']) = [''posts'', ''user''] \<and>
   fst (modulesToCreate True [''posts'', ''user'']) \<noteq>
     ''user'' # filter (\<lambda>module. module \<noteq> ''user'' \<and> module \<noteq> ''users'') [''posts'', ''user''] \<and>
   pluralModuleNames True [''posts'', ''user''] = [''posts'', ''users''] \<and>
   fst (modulesToCreate True [''posts'']) = [''user'', ''posts'']"
  by code_simp

end
